theory Spec2Isabelle
  imports Main "HOL-Library.Word"
begin

section \<open>JavaScript values used by the component\<close>

text \<open>
  A JavaScript string is a sequence of UTF-16 code units. String literals of the source
  are ASCII and are embedded through \<open>lit\<close>.
\<close>

type_synonym jsstring = "16 word list"

definition lit :: "string \<Rightarrow> jsstring" where
  "lit s = map (\<lambda>c. word_of_nat (of_char c)) s"

text \<open>
  \<open>String.prototype.trim\<close> strips the code units that ECMAScript calls WhiteSpace or
  LineTerminator from both ends: TAB, LF, VT, FF, CR, SPACE, NBSP, the other space
  separators (U+1680, U+2000..U+200A, U+202F, U+205F, U+3000), LS, PS and U+FEFF.
\<close>

definition isWhiteSpace :: "16 word \<Rightarrow> bool" where
  "isWhiteSpace c =
     (c = 0x0009 \<or> c = 0x000A \<or> c = 0x000B \<or> c = 0x000C \<or> c = 0x000D \<or> c = 0x0020 \<or>
      c = 0x00A0 \<or> c = 0x1680 \<or> (0x2000 \<le> c \<and> c \<le> 0x200A) \<or> c = 0x2028 \<or>
      c = 0x2029 \<or> c = 0x202F \<or> c = 0x205F \<or> c = 0x3000 \<or> c = 0xFEFF)"

definition trim :: "jsstring \<Rightarrow> jsstring" where
  "trim s = rev (dropWhile isWhiteSpace (rev (dropWhile isWhiteSpace s)))"

text \<open>
  The decimal rendering of an integral number, as a template literal produces it for the
  result of \<open>Date.now()\<close>.
\<close>

definition digit :: "nat \<Rightarrow> 16 word" where
  "digit d = 0x30 + word_of_nat d"

fun digits :: "nat \<Rightarrow> jsstring" where
  "digits n = (if n < 10 then [digit n] else digits (n div 10) @ [digit (n mod 10)])"

declare digits.simps [simp del]

definition numberToString :: "int \<Rightarrow> jsstring" where
  "numberToString i = (if i < 0 then lit ''-'' @ digits (nat (- i)) else digits (nat i))"

text \<open>
  \<open>Array.prototype.findIndex\<close> returns the first index whose element satisfies the
  predicate, and \<open>-1\<close> when there is none; reading an array outside its bounds gives
  \<open>undefined\<close>, which is \<open>None\<close> here.
\<close>

fun findIndexFrom :: "('a \<Rightarrow> bool) \<Rightarrow> 'a list \<Rightarrow> int \<Rightarrow> int" where
  "findIndexFrom p [] k = - 1"
| "findIndexFrom p (x # xs) k = (if p x then k else findIndexFrom p xs (k + 1))"

definition findIndex :: "('a \<Rightarrow> bool) \<Rightarrow> 'a list \<Rightarrow> int" where
  "findIndex p xs = findIndexFrom p xs 0"

definition element :: "'a list \<Rightarrow> int \<Rightarrow> 'a option" where
  "element xs i = (if 0 \<le> i \<and> i < int (length xs) then Some (xs ! nat i) else None)"

subsection \<open>Plain objects used as dictionaries\<close>

text \<open>
  The plan state and the tool history are plain objects, created by \<open>{}\<close> or by an object
  literal, and are indexed by arbitrary strings. Such an object is modelled by the map of
  its own properties; its prototype is \<open>Object.prototype\<close>, whose members are the names
  below (the standard ones and the legacy accessors every browser defines).
\<close>

definition PROTO :: jsstring where
  "PROTO = lit ''__proto__''"

definition objectPrototypeNames :: "jsstring list" where
  "objectPrototypeNames =
     [lit ''constructor'', lit ''hasOwnProperty'', lit ''isPrototypeOf'',
      lit ''propertyIsEnumerable'', lit ''toLocaleString'', lit ''toString'', lit ''valueOf'',
      lit ''__defineGetter__'', lit ''__defineSetter__'', lit ''__lookupGetter__'',
      lit ''__lookupSetter__'', PROTO]"

definition inherited :: "jsstring \<Rightarrow> bool" where
  "inherited k = (k \<in> set objectPrototypeNames)"

text \<open>
  What the read \<open>obj[k]\<close> yields: the value of the own property \<open>k\<close>; for a name that is
  not an own property but a member of \<open>Object.prototype\<close>, the inherited member (a function,
  or \<open>Object.prototype\<close> itself for \<open>__proto__\<close>); otherwise \<open>undefined\<close>. An inherited member
  is neither nullish nor falsy, equals no string and is not iterable.
\<close>

datatype 'v jsvalue = Own 'v | Inherited | Undefined

definition getProp :: "(jsstring \<rightharpoonup> 'v) \<Rightarrow> jsstring \<Rightarrow> 'v jsvalue" where
  "getProp obj k =
     (case obj k of
        Some v \<Rightarrow> Own v
      | None \<Rightarrow> if inherited k then Inherited else Undefined)"

text \<open>
  The assignment \<open>obj[k] = v\<close> of a string \<open>v\<close>. It creates or updates the own property
  \<open>k\<close>, with one exception: when \<open>k\<close> is \<open>__proto__\<close> and the object has no own property of
  that name, the assignment reaches the setter inherited from \<open>Object.prototype\<close>, which
  ignores a value that is neither an object nor \<open>null\<close>, and the object stays as it is.
  (An object literal with a spread and a computed key, \<open>{...prev, [k]: v}\<close>, defines own
  properties for every key, \<open>__proto__\<close> included; that is the map update \<open>prev(k \<mapsto> v)\<close>.)
\<close>

definition assignProp :: "(jsstring \<rightharpoonup> 'v) \<Rightarrow> jsstring \<Rightarrow> 'v \<Rightarrow> (jsstring \<rightharpoonup> 'v)" where
  "assignProp obj k v = (if k = PROTO \<and> obj k = None then obj else obj(k \<mapsto> v))"

text \<open>
  Spreading a value that is not iterable throws a \<open>TypeError\<close>. Nothing in the component
  catches it: the render that runs the state updater fails and the page is unmounted.
\<close>

datatype error = TypeError

section \<open>Data model\<close>

datatype MissionTimeframe = TwoWeeks | ThirtyDays | SixtyDays | NinetyDays

datatype Intensity = aggressive | balanced | sustainable

record MissionConfig =
  goal :: jsstring
  mission_context :: jsstring
  timeframe :: MissionTimeframe
  intensity :: Intensity
  guardrails :: jsstring

record PlanStep =
  step_id :: jsstring
  step_title :: jsstring
  step_duration :: jsstring
  step_narrative :: jsstring
  step_leverage :: jsstring
  step_confidence :: int
  step_energy :: jsstring
  step_catalyst :: jsstring
  step_dependencies :: "jsstring list"

record Tool =
  tool_id :: jsstring
  tool_name :: jsstring
  tool_description :: jsstring
  tool_scenario :: jsstring

record QuickAction =
  action_id :: jsstring
  action_label :: jsstring
  action_objective :: jsstring
  action_value :: jsstring

record Metric =
  metric_id :: jsstring
  metric_label :: jsstring
  metric_target :: jsstring
  metric_cadence :: jsstring

record Focus =
  focus_id :: jsstring
  focus_label :: jsstring
  focus_score :: int
  focus_driver :: jsstring

record AgentBlueprint =
  missionTitle :: jsstring
  missionSummary :: jsstring
  operatingMode :: jsstring
  missionArc :: jsstring
  cadence :: jsstring
  plan :: "PlanStep list"
  tools :: "Tool list"
  quickActions :: "QuickAction list"
  metrics :: "Metric list"
  focusMap :: "Focus list"

record ToolRun =
  run_timestamp :: int
  run_headline :: jsstring
  run_insight :: jsstring
  run_signalStrength :: int

datatype Category = Signal | Decision | Note

record Insight =
  insight_id :: jsstring
  insight_text :: jsstring
  insight_category :: Category
  insight_createdAt :: int

record ActivityLogItem =
  activity_id :: jsstring
  activity_label :: jsstring
  activity_detail :: jsstring
  activity_timestamp :: int

datatype Status = Pending | Active | Done

text \<open>The own properties of the two objects \<open>PlanState\<close> and \<open>ToolHistory\<close>.\<close>

type_synonym PlanState = "jsstring \<rightharpoonup> Status"

type_synonym ToolHistory = "jsstring \<rightharpoonup> ToolRun list"

text \<open>
  The component imports \<open>craftBlueprint\<close>, \<open>createActivity\<close> and \<open>runToolSimulation\<close>
  from a library module and reads the clock with \<open>Date.now()\<close>. They are parameters of
  the model: every handler runs in an environment that fixes what these calls return
  during that one event (\<open>now k\<close> is the k-th clock reading of the handler), so results
  that depend on time or on a random source may differ from event to event.
\<close>

record env =
  craftBlueprint :: "MissionConfig \<Rightarrow> AgentBlueprint"
  createActivity :: "jsstring \<Rightarrow> jsstring \<Rightarrow> ActivityLogItem"
  runToolSimulation :: "jsstring \<Rightarrow> jsstring \<Rightarrow> ToolRun"
  now :: "nat \<Rightarrow> int"

text \<open>The view state held by the hooks of \<open>AgentStudio\<close>.\<close>

record state =
  config :: MissionConfig
  blueprint :: AgentBlueprint
  planStates :: PlanState
  activity :: "ActivityLogItem list"
  insights :: "Insight list"
  insightDraft :: jsstring
  insightCategory :: Category
  knowledgeQuery :: jsstring
  toolHistory :: ToolHistory

section \<open>Initial state\<close>

definition INITIAL_CONFIG :: MissionConfig where
  "INITIAL_CONFIG =
     \<lparr> goal = lit ''Launch an AI-native growth engine that doubles qualified pipeline within 90 days.'',
       mission_context = lit ''B2B SaaS scaling to mid-market. Need rapid insights on buyer motion and automation opportunities.'',
       timeframe = NinetyDays,
       intensity = aggressive,
       guardrails = lit ''Maintain brand trust and legal compliance while moving fast.'' \<rparr>"

text \<open>
  The \<open>forEach\<close> loop that fills a new plan state, starting from \<open>{}\<close>: the step at index
  0 is assigned \<open>active\<close>, every later one \<open>pending\<close>, each by \<open>next[step.id] = ...\<close>.
\<close>

fun assignStates :: "PlanStep list \<Rightarrow> nat \<Rightarrow> PlanState \<Rightarrow> PlanState" where
  "assignStates [] index next = next"
| "assignStates (step # rest) index next =
     assignStates rest (Suc index)
       (assignProp next (step_id step) (if index = 0 then Active else Pending))"

definition freshPlanStates :: "PlanStep list \<Rightarrow> PlanState" where
  "freshPlanStates steps = assignStates steps 0 Map.empty"

definition initialState :: "env \<Rightarrow> state" where
  "initialState e =
     \<lparr> config = INITIAL_CONFIG,
       blueprint = craftBlueprint e INITIAL_CONFIG,
       planStates = freshPlanStates (plan (craftBlueprint e INITIAL_CONFIG)),
       activity = [createActivity e (lit ''Agent Primed'')
                     (lit ''Mission seeded with default aggressive growth blueprint.'')],
       insights = [],
       insightDraft = [],
       insightCategory = Signal,
       knowledgeQuery = [],
       toolHistory = Map.empty \<rparr>"

section \<open>Derived values\<close>

text \<open>
  The status a step is rendered with: \<open>planStates[step.id] ?? "pending"\<close>. The step is
  rendered active when this is \<open>Own Active\<close> and done when it is \<open>Own Done\<close>; an inherited
  member is not nullish and is kept by \<open>??\<close>.
\<close>

definition statusOf :: "state \<Rightarrow> PlanStep \<Rightarrow> Status jsvalue" where
  "statusOf st step =
     (case getProp (planStates st) (step_id step) of
        Undefined \<Rightarrow> Own Pending
      | v \<Rightarrow> v)"

definition activeStep :: "state \<Rightarrow> PlanStep option" where
  "activeStep st =
     find (\<lambda>step. getProp (planStates st) (step_id step) = Own Active) (plan (blueprint st))"

text \<open>
  The value \<open>prev[toolId] || []\<close> read from the tool history: an own list (an array is
  truthy even when empty), the empty list for a missing name, and the inherited member
  itself for a name of \<open>Object.prototype\<close>.
\<close>

definition historyOf :: "state \<Rightarrow> jsstring \<Rightarrow> ToolRun list jsvalue" where
  "historyOf st toolId =
     (case getProp (toolHistory st) toolId of
        Undefined \<Rightarrow> Own []
      | v \<Rightarrow> v)"

section \<open>Event handlers\<close>

definition handleGenerate :: "env \<Rightarrow> state \<Rightarrow> state" where
  "handleGenerate e st =
     (let nextBlueprint = craftBlueprint e (config st);
          nextStates = freshPlanStates (plan nextBlueprint)
      in st\<lparr> blueprint := nextBlueprint,
             planStates := nextStates,
             activity :=
               createActivity e (lit ''Mission Rebuilt'')
                 (lit ''Agent recalibrated around '' @ [0x22] @
                  (if goal (config st) = [] then lit ''new objective'' else goal (config st)) @
                  [0x22] @ lit ''.'')
               # activity st \<rparr>)"

text \<open>
  The updater that \<open>handleAdvance\<close> passes to \<open>setPlanStates\<close>: the object literal
  \<open>{...prev, [step.id]: "done"}\<close>, then the assignment \<open>next[nextStep.id] = "active"\<close> when
  there is a next step.
\<close>

definition advancePlanStates :: "PlanStep list \<Rightarrow> PlanStep \<Rightarrow> PlanState \<Rightarrow> PlanState" where
  "advancePlanStates steps step prev =
     (let next = prev(step_id step \<mapsto> Done);
          currentIndex = findIndex (\<lambda>item. step_id item = step_id step) steps
      in case element steps (currentIndex + 1) of
           Some nextStep \<Rightarrow> assignProp next (step_id nextStep) Active
         | None \<Rightarrow> next)"

definition handleAdvance :: "env \<Rightarrow> PlanStep \<Rightarrow> state \<Rightarrow> state" where
  "handleAdvance e step st =
     st\<lparr> planStates := advancePlanStates (plan (blueprint st)) step (planStates st),
         activity :=
           createActivity e (lit ''Step Advanced'')
             (step_title step @ lit '' marked complete. Catalyst: '' @ step_catalyst step @ lit ''.'')
           # activity st \<rparr>"

definition handleInsightCreate :: "env \<Rightarrow> state \<Rightarrow> state" where
  "handleInsightCreate e st =
     (if trim (insightDraft st) = [] then st
      else
        let entry = \<lparr> insight_id = lit ''insight-'' @ numberToString (now e 0),
                      insight_text = trim (insightDraft st),
                      insight_category = insightCategory st,
                      insight_createdAt = now e 1 \<rparr>
        in st\<lparr> insights := entry # insights st,
               insightDraft := [],
               activity := createActivity e (lit ''Insight Captured'') (insight_text entry)
                           # activity st \<rparr>)"

text \<open>
  In \<open>handleToolRun\<close> the spread \<open>[run, ...history]\<close> needs an array: for an inherited member
  it throws.
\<close>

definition handleToolRun :: "env \<Rightarrow> jsstring \<Rightarrow> jsstring \<Rightarrow> state \<Rightarrow> error + state" where
  "handleToolRun e toolId query st =
     (let run = runToolSimulation e toolId query
      in case historyOf st toolId of
           Own history \<Rightarrow>
             Inr (st\<lparr> toolHistory := (toolHistory st)(toolId \<mapsto> take 5 (run # history)),
                      activity :=
                        createActivity e (lit ''Tool Fired'')
                          (toolId @ lit '' returned '' @ run_headline run)
                        # activity st \<rparr>)
         | _ \<Rightarrow> Inl TypeError)"

subsection \<open>Form inputs\<close>

definition setGoal :: "jsstring \<Rightarrow> state \<Rightarrow> state" where
  "setGoal v st = st\<lparr> config := (config st)\<lparr> goal := v \<rparr> \<rparr>"

definition setContext :: "jsstring \<Rightarrow> state \<Rightarrow> state" where
  "setContext v st = st\<lparr> config := (config st)\<lparr> mission_context := v \<rparr> \<rparr>"

definition setTimeframe :: "MissionTimeframe \<Rightarrow> state \<Rightarrow> state" where
  "setTimeframe v st = st\<lparr> config := (config st)\<lparr> timeframe := v \<rparr> \<rparr>"

definition setIntensity :: "Intensity \<Rightarrow> state \<Rightarrow> state" where
  "setIntensity v st = st\<lparr> config := (config st)\<lparr> intensity := v \<rparr> \<rparr>"

definition setGuardrails :: "jsstring \<Rightarrow> state \<Rightarrow> state" where
  "setGuardrails v st = st\<lparr> config := (config st)\<lparr> guardrails := v \<rparr> \<rparr>"

definition setKnowledgeQuery :: "jsstring \<Rightarrow> state \<Rightarrow> state" where
  "setKnowledgeQuery v st = st\<lparr> knowledgeQuery := v \<rparr>"

definition setInsightCategory :: "Category \<Rightarrow> state \<Rightarrow> state" where
  "setInsightCategory v st = st\<lparr> insightCategory := v \<rparr>"

definition setInsightDraft :: "jsstring \<Rightarrow> state \<Rightarrow> state" where
  "setInsightDraft v st = st\<lparr> insightDraft := v \<rparr>"

subsection \<open>User actions on the rendered page\<close>

text \<open>
  The button of the i-th rendered plan step carries \<open>disabled={!isActive}\<close>: it can be
  clicked only while that step is rendered active.
\<close>

definition advanceEnabled :: "state \<Rightarrow> nat \<Rightarrow> bool" where
  "advanceEnabled st i =
     (i < length (plan (blueprint st)) \<and> statusOf st (plan (blueprint st) ! i) = Own Active)"

text \<open>
  One constructor per control of the page. \<open>ClickFire i\<close> is the Fire button of the i-th
  rendered tool, \<open>ClickAdvance i\<close> the button of the i-th rendered plan step, which is
  disabled unless that step is rendered active.
\<close>

datatype action =
    EditGoal jsstring
  | EditContext jsstring
  | EditTimeframe MissionTimeframe
  | EditIntensity Intensity
  | EditGuardrails jsstring
  | ClickIgnite
  | ClickFire nat
  | EditKnowledgeQuery jsstring
  | ClickAdvance nat
  | EditInsightCategory Category
  | EditInsightDraft jsstring
  | ClickCapture

fun dispatch :: "env \<Rightarrow> action \<Rightarrow> state \<Rightarrow> error + state" where
  "dispatch e (EditGoal v) st = Inr (setGoal v st)"
| "dispatch e (EditContext v) st = Inr (setContext v st)"
| "dispatch e (EditTimeframe v) st = Inr (setTimeframe v st)"
| "dispatch e (EditIntensity v) st = Inr (setIntensity v st)"
| "dispatch e (EditGuardrails v) st = Inr (setGuardrails v st)"
| "dispatch e ClickIgnite st = Inr (handleGenerate e st)"
| "dispatch e (ClickFire i) st =
     (if i < length (tools (blueprint st))
      then handleToolRun e (tool_id (tools (blueprint st) ! i)) (goal (config st)) st
      else Inr st)"
| "dispatch e (EditKnowledgeQuery v) st = Inr (setKnowledgeQuery v st)"
| "dispatch e (ClickAdvance i) st =
     (if advanceEnabled st i
      then Inr (handleAdvance e (plan (blueprint st) ! i) st)
      else Inr st)"
| "dispatch e (EditInsightCategory v) st = Inr (setInsightCategory v st)"
| "dispatch e (EditInsightDraft v) st = Inr (setInsightDraft v st)"
| "dispatch e ClickCapture st = Inr (handleInsightCreate e st)"

text \<open>
  A session: the actions in the order they happen, each with its environment. It ends
  with the first error, which unmounts the page.
\<close>

fun session :: "(env \<times> action) list \<Rightarrow> state \<Rightarrow> error + state" where
  "session [] st = Inr st"
| "session ((e, a) # rest) st =
     (case dispatch e a st of Inl err \<Rightarrow> Inl err | Inr st' \<Rightarrow> session rest st')"

text \<open>
  A run of advancements, each one a click on a step that is active at that moment; the
  result is \<open>None\<close> when some click of the list meets a disabled button.
\<close>

fun advances :: "(env \<times> nat) list \<Rightarrow> state \<Rightarrow> state option" where
  "advances [] st = Some st"
| "advances ((e, i) # rest) st =
     (if advanceEnabled st i
      then advances rest (handleAdvance e (plan (blueprint st) ! i) st)
      else None)"

text \<open>
  A run of tool invocations: the environment, the tool id and the query of each. It ends
  with the first error.
\<close>

fun toolRuns :: "(env \<times> jsstring \<times> jsstring) list \<Rightarrow> state \<Rightarrow> error + state" where
  "toolRuns [] st = Inr st"
| "toolRuns ((e, toolId, query) # rest) st =
     (case handleToolRun e toolId query st of
        Inl err \<Rightarrow> Inl err
      | Inr st' \<Rightarrow> toolRuns rest st')"

text \<open>The runs that a list of invocations produces for one tool, oldest first.\<close>

fun runsFor :: "jsstring \<Rightarrow> (env \<times> jsstring \<times> jsstring) list \<Rightarrow> ToolRun list" where
  "runsFor t [] = []"
| "runsFor t ((e, toolId, query) # rest) =
     (if toolId = t then runToolSimulation e toolId query # runsFor t rest else runsFor t rest)"

section \<open>Knowledge search\<close>

record KnowledgeItem =
  item_id :: jsstring
  item_title :: jsstring
  item_summary :: jsstring
  item_tags :: "jsstring list"

text \<open>
  Substring containment of strings: \<open>hasSubstring s q\<close> holds when \<open>q\<close> occurs in \<open>s\<close> as a
  contiguous run of code units; the empty string occurs in every string.
\<close>

fun startsWith :: "'a list \<Rightarrow> 'a list \<Rightarrow> bool" where
  "startsWith s [] = True"
| "startsWith [] (q # qs) = False"
| "startsWith (c # cs) (q # qs) = (c = q \<and> startsWith cs qs)"

fun hasSubstring :: "'a list \<Rightarrow> 'a list \<Rightarrow> bool" where
  "hasSubstring [] q = (q = [])"
| "hasSubstring (c # cs) q = (startsWith (c # cs) q \<or> hasSubstring cs q)"

text \<open>
  Modelled from the spec: \<open>searchKnowledge\<close> and the knowledge catalog belong to the library
  module \<open>@/lib/agent\<close>, which is not among the source files; the component only calls
  \<open>searchKnowledge(knowledgeQuery)\<close> and renders the id, title, summary and tags of each
  result. The specification says that knowledge search "filters a fixed in-memory catalog
  of knowledge items by substring/keyword match against title, summary, or tags", with "no
  ranking beyond inclusion". An item matches a query when the query is a substring of its
  title, of its summary or of one of its tags; the catalog is a parameter.
\<close>

definition matchesQuery :: "jsstring \<Rightarrow> KnowledgeItem \<Rightarrow> bool" where
  "matchesQuery q item =
     (hasSubstring (item_title item) q \<or> hasSubstring (item_summary item) q \<or>
      list_ex (\<lambda>tag. hasSubstring tag q) (item_tags item))"

text \<open>
  Modelled from the spec: the library function \<open>searchKnowledge\<close>, absent from the source
  files, as the filter of the catalog by \<open>matchesQuery\<close>, in catalog order.
\<close>

definition searchKnowledge :: "KnowledgeItem list \<Rightarrow> jsstring \<Rightarrow> KnowledgeItem list" where
  "searchKnowledge catalog q = filter (matchesQuery q) catalog"

text \<open>The memoised value \<open>knowledgeResults\<close> of the component.\<close>

definition knowledgeResults :: "KnowledgeItem list \<Rightarrow> state \<Rightarrow> KnowledgeItem list" where
  "knowledgeResults catalog st = searchKnowledge catalog (knowledgeQuery st)"

section \<open>Which actions reach the activity log\<close>

text \<open>
  The actions whose handler calls \<open>setActivity\<close>: Ignite, Fire on a rendered tool, the
  button of an active step, and Capture when the trimmed draft is not empty. Fire on a
  tool whose history read is an inherited member throws instead.
\<close>

definition fireThrows :: "state \<Rightarrow> nat \<Rightarrow> bool" where
  "fireThrows st i =
     (i < length (tools (blueprint st)) \<and>
      historyOf st (tool_id (tools (blueprint st) ! i)) = Inherited)"

definition throws :: "action \<Rightarrow> state \<Rightarrow> bool" where
  "throws a st = (case a of ClickFire i \<Rightarrow> fireThrows st i | _ \<Rightarrow> False)"

definition recorded :: "action \<Rightarrow> state \<Rightarrow> bool" where
  "recorded a st =
     (case a of
        ClickIgnite \<Rightarrow> True
      | ClickFire i \<Rightarrow> i < length (tools (blueprint st))
      | ClickAdvance i \<Rightarrow> advanceEnabled st i
      | ClickCapture \<Rightarrow> trim (insightDraft st) \<noteq> []
      | _ \<Rightarrow> False)"

section \<open>The plan invariant\<close>

text \<open>
  After \<open>n\<close> advancements of a plan with pairwise distinct step ids, the first \<open>n\<close> steps
  are done, step \<open>n\<close> (when there is one) is active and the later steps are pending;
  a step that is not done and whose id is \<open>__proto__\<close> has no entry at all.
\<close>

definition planInv :: "nat \<Rightarrow> state \<Rightarrow> bool" where
  "planInv n st \<longleftrightarrow>
     n \<le> length (plan (blueprint st)) \<and>
     (\<forall>j<length (plan (blueprint st)).
        planStates st (step_id (plan (blueprint st) ! j)) =
          (if j < n then Some Done
           else if step_id (plan (blueprint st) ! j) = PROTO then None
           else Some (if j = n then Active else Pending)))"

section \<open>A concrete environment and plan\<close>

text \<open>
  A small environment on which the handlers are evaluated: a blueprint of three plan steps
  and three tools, the last of which has the id \<open>toString\<close>, and library functions that
  stamp their results with the time \<open>t\<close>. \<open>planEnv ids\<close> is the same environment with a plan
  whose steps have the given ids.
\<close>

definition demoStep :: "jsstring \<Rightarrow> PlanStep" where
  "demoStep i =
     \<lparr> step_id = i, step_title = lit ''Map the terrain'', step_duration = lit ''Week 1'',
       step_narrative = [], step_leverage = lit ''High'', step_confidence = 80,
       step_energy = lit ''Medium'', step_catalyst = lit ''Signal audit'',
       step_dependencies = [] \<rparr>"

definition demoTool :: "jsstring \<Rightarrow> Tool" where
  "demoTool i = \<lparr> tool_id = i, tool_name = i, tool_description = [], tool_scenario = [] \<rparr>"

definition demoBlueprint :: "MissionConfig \<Rightarrow> AgentBlueprint" where
  "demoBlueprint c =
     \<lparr> missionTitle = goal c, missionSummary = mission_context c, operatingMode = [],
       missionArc = [], cadence = [],
       plan = [demoStep (lit ''s1''), demoStep (lit ''s2''), demoStep (lit ''s3'')],
       tools = [demoTool (lit ''radar''), demoTool (lit ''forge''), demoTool (lit ''toString'')],
       quickActions = [], metrics = [], focusMap = [] \<rparr>"

definition demoEnv :: "int \<Rightarrow> env" where
  "demoEnv t =
     \<lparr> craftBlueprint = demoBlueprint,
       createActivity = (\<lambda>label detail.
         \<lparr> activity_id = numberToString t, activity_label = label, activity_detail = detail,
           activity_timestamp = t \<rparr>),
       runToolSimulation = (\<lambda>toolId query.
         \<lparr> run_timestamp = t, run_headline = toolId, run_insight = query,
           run_signalStrength = 50 \<rparr>),
       now = (\<lambda>k. t) \<rparr>"

definition planEnv :: "jsstring list \<Rightarrow> env" where
  "planEnv ids =
     (demoEnv 0)\<lparr> craftBlueprint := (\<lambda>c. (demoBlueprint c)\<lparr> plan := map demoStep ids \<rparr>) \<rparr>"

definition demoAdvanced :: state where
  "demoAdvanced =
     handleAdvance (demoEnv 2) (demoStep (lit ''s2''))
       (handleAdvance (demoEnv 1) (demoStep (lit ''s1'')) (initialState (demoEnv 0)))"

definition twinPlan :: state where
  "twinPlan = initialState (planEnv [lit ''s1'', lit ''s2'', lit ''s2''])"

definition twinAdvanced :: state where
  "twinAdvanced = handleAdvance (demoEnv 1) (demoStep (lit ''s1'')) twinPlan"




definition demoRuns :: "(env \<times> jsstring \<times> jsstring) list" where
  "demoRuns = map (\<lambda>t. (demoEnv t, lit ''radar'', lit ''goal'')) [1, 2, 3, 4, 5, 6, 7]"

definition demoCatalog :: "KnowledgeItem list" where
  "demoCatalog =
     [\<lparr> item_id = lit ''k1'', item_title = lit ''Growth loops'',
        item_summary = lit ''Compounding acquisition'', item_tags = [lit ''growth'', lit ''loops''] \<rparr>,
      \<lparr> item_id = lit ''k2'', item_title = lit ''Weekly ritual'',
        item_summary = lit ''Review cadence'', item_tags = [lit ''ritual''] \<rparr>]"

definition blankDraft :: state where
  "blankDraft = setInsightDraft (lit ''  '') (initialState (demoEnv 0))"

definition paddedDraft :: state where
  "paddedDraft = setInsightDraft (lit '' ok '') (initialState (demoEnv 0))"

definition editedGoal :: state where
  "editedGoal = setGoal (lit ''Ship'') (initialState (demoEnv 0))"

section \<open>Frame: tool history across regeneration\<close>

text \<open>
  C5. Regenerating the blueprint leaves the run history of every tool as it was.
\<close>

theorem generate_keeps_tool_history:
  "historyOf (handleGenerate e st) toolId = historyOf st toolId"
  by (simp add: handleGenerate_def historyOf_def Let_def)

section \<open>Filling and advancing the plan state\<close>

lemma inherited_PROTO: "inherited PROTO"
  by (simp add: inherited_def objectPrototypeNames_def)

lemma getProp_Own_iff: "getProp obj k = Own v \<longleftrightarrow> obj k = Some v"
  by (simp add: getProp_def split: option.split)

lemma assignStates_other:
  "k \<notin> step_id ` set steps \<Longrightarrow> assignStates steps i m k = m k"
  by (induction steps arbitrary: i m) (auto simp: assignProp_def)

lemma assignStates_PROTO:
  "m PROTO = None \<Longrightarrow> assignStates steps i m PROTO = None"
  by (induction steps arbitrary: i m) (auto simp: assignProp_def)

lemma assignStates_later:
  "0 < i \<Longrightarrow> k \<in> step_id ` set steps \<Longrightarrow> k \<noteq> PROTO \<Longrightarrow>
   assignStates steps i m k = Some Pending"
proof (induction steps arbitrary: i m)
  case Nil
  then show ?case by simp
next
  case (Cons x xs)
  show ?case
  proof (cases "k \<in> step_id ` set xs")
    case True
    then show ?thesis using Cons.IH [of "Suc i"] Cons.prems(3) by simp
  next
    case False
    with Cons.prems have "k = step_id x" by auto
    with False Cons.prems show ?thesis by (simp add: assignStates_other assignProp_def)
  qed
qed



lemma freshPlanStates_PROTO: "freshPlanStates steps PROTO = None"
  by (simp add: freshPlanStates_def assignStates_PROTO)

lemma freshPlanStates_first:
  "step_id s \<noteq> PROTO \<Longrightarrow>
   freshPlanStates (s # rest) (step_id s) =
     Some (if step_id s \<in> step_id ` set rest then Pending else Active)"
  by (simp add: freshPlanStates_def assignStates_other assignStates_later assignProp_def)

lemma freshPlanStates_rest:
  "k \<in> step_id ` set rest \<Longrightarrow> k \<noteq> PROTO \<Longrightarrow> freshPlanStates (s # rest) k = Some Pending"
  by (simp add: freshPlanStates_def assignStates_later)

lemma freshPlanStates_nth:
  assumes "distinct (map step_id steps)" and "j < length steps"
  shows "freshPlanStates steps (step_id (steps ! j)) =
           (if step_id (steps ! j) = PROTO then None
            else Some (if j = 0 then Active else Pending))"
proof (cases "step_id (steps ! j) = PROTO")
  case True
  then show ?thesis by (simp add: freshPlanStates_PROTO)
next
  case np: False
  show ?thesis
  proof (cases steps)
    case Nil
    with assms show ?thesis by simp
  next
    case (Cons s rest)
    show ?thesis
    proof (cases j)
      case 0
      with Cons assms np show ?thesis by (simp add: freshPlanStates_first)
    next
      case (Suc j')
      with Cons assms have "step_id (steps ! j) \<in> step_id ` set rest" by simp
      with Cons Suc np show ?thesis by (simp add: freshPlanStates_rest)
    qed
  qed
qed

lemma findIndexFrom_first:
  "j < length xs \<Longrightarrow> p (xs ! j) \<Longrightarrow> (\<forall>i<j. \<not> p (xs ! i)) \<Longrightarrow>
   findIndexFrom p xs k = k + int j"
proof (induction xs arbitrary: j k)
  case Nil
  then show ?case by simp
next
  case (Cons x xs)
  show ?case
  proof (cases j)
    case 0
    with Cons.prems show ?thesis by simp
  next
    case (Suc j')
    with Cons.prems have nx: "\<not> p x" by auto
    have "findIndexFrom p xs (k + 1) = (k + 1) + int j'"
      using Cons.prems Suc by (intro Cons.IH) auto
    with nx Suc show ?thesis by simp
  qed
qed

lemma findIndexFrom_none:
  "(\<forall>x\<in>set xs. \<not> p x) \<Longrightarrow> findIndexFrom p xs k = - 1"
  by (induction xs arbitrary: k) auto

lemma findIndex_distinct:
  assumes "distinct (map f xs)" and "j < length xs"
  shows "findIndex (\<lambda>x. f x = f (xs ! j)) xs = int j"
proof -
  have "\<forall>i<j. f (xs ! i) \<noteq> f (xs ! j)"
    using assms by (auto simp: distinct_conv_nth)
  with assms(2) show ?thesis
    by (simp add: findIndex_def findIndexFrom_first)
qed

lemma advancePlanStates_nth:
  assumes "distinct (map step_id steps)" and "j < length steps"
  shows "advancePlanStates steps (steps ! j) m =
           (if Suc j < length steps
            then assignProp (m(step_id (steps ! j) \<mapsto> Done)) (step_id (steps ! Suc j)) Active
            else m(step_id (steps ! j) \<mapsto> Done))"
  using assms
  by (simp add: advancePlanStates_def findIndex_distinct element_def Let_def nat_add_distrib)

lemma planInv_status:
  "planInv n st \<Longrightarrow> j < length (plan (blueprint st)) \<Longrightarrow>
   statusOf st (plan (blueprint st) ! j) =
     (if j < n then Own Done
      else if step_id (plan (blueprint st) ! j) = PROTO then Inherited
      else Own (if j = n then Active else Pending))"
  by (simp add: planInv_def statusOf_def getProp_def inherited_PROTO)

lemma planInv_fresh:
  "distinct (map step_id (plan (blueprint st))) \<Longrightarrow>
   planStates st = freshPlanStates (plan (blueprint st)) \<Longrightarrow> planInv 0 st"
  by (simp add: planInv_def freshPlanStates_nth)

lemma planInv_enabled:
  "planInv n st \<Longrightarrow> advanceEnabled st i \<Longrightarrow>
   i = n \<and> step_id (plan (blueprint st) ! i) \<noteq> PROTO"
  by (auto simp: advanceEnabled_def planInv_status split: if_splits)

lemma planInv_advance:
  assumes d: "distinct (map step_id (plan (blueprint st)))"
      and inv: "planInv n st" and en: "advanceEnabled st i"
  shows "planInv (Suc n) (handleAdvance e (plan (blueprint st) ! i) st)"
proof -
  let ?p = "plan (blueprint st)"
  let ?m = "planStates st"
  have i: "i = n" and np: "step_id (?p ! n) \<noteq> PROTO"
    using planInv_enabled [OF inv en] by auto
  have n: "n < length ?p" using en i by (simp add: advanceEnabled_def)
  have neq: "\<And>a b. a < length ?p \<Longrightarrow> b < length ?p \<Longrightarrow>
      (step_id (?p ! a) = step_id (?p ! b)) = (a = b)"
    using d by (simp add: distinct_conv_nth) (metis length_map nth_map)
  have old: "\<And>j. j < length ?p \<Longrightarrow> ?m (step_id (?p ! j)) =
          (if j < n then Some Done
           else if step_id (?p ! j) = PROTO then None
           else Some (if j = n then Active else Pending))"
    using inv by (simp add: planInv_def)
  let ?m1 = "?m(step_id (?p ! n) \<mapsto> Done)"
  have m1: "?m1 (step_id (?p ! j)) = (if j = n then Some Done else ?m (step_id (?p ! j)))"
    if "j < length ?p" for j
    using that n by (simp add: neq)
  show ?thesis
  proof (cases "Suc n < length ?p")
    case False
    then have new: "planStates (handleAdvance e (?p ! i) st) = ?m1"
      using i n by (simp add: handleAdvance_def advancePlanStates_nth [OF d n])
    have "blueprint (handleAdvance e (?p ! i) st) = blueprint st"
      by (simp add: handleAdvance_def)
    then have bp: "blueprint (handleAdvance e (?p ! i) st) = blueprint st" .
    have val: "?m1 (step_id (?p ! j)) =
          (if j < Suc n then Some Done
           else if step_id (?p ! j) = PROTO then None
           else Some (if j = Suc n then Active else Pending))"
      if j: "j < length ?p" for j
    proof -
      from j False have "j \<le> n" by simp
      then show ?thesis
        unfolding m1 [OF j] old [OF j] by (simp add: less_Suc_eq)
    qed
    show ?thesis
      unfolding planInv_def bp new using n val by simp
  next
    case True
    let ?k = "step_id (?p ! Suc n)"
    have new: "planStates (handleAdvance e (?p ! i) st) = assignProp ?m1 ?k Active"
      using True i n by (simp add: handleAdvance_def advancePlanStates_nth [OF d n])
    have bp: "blueprint (handleAdvance e (?p ! i) st) = blueprint st"
      by (simp add: handleAdvance_def)
    have val: "assignProp ?m1 ?k Active (step_id (?p ! j)) =
          (if j < Suc n then Some Done
           else if step_id (?p ! j) = PROTO then None
           else Some (if j = Suc n then Active else Pending))"
      if j: "j < length ?p" for j
    proof (cases "j = Suc n")
      case jn: True
      show ?thesis
      proof (cases "?k = PROTO")
        case kp: True
        have "?m1 ?k = None" using m1 [OF True] old [OF True] kp by simp
        then show ?thesis using jn kp by (simp add: assignProp_def)
      next
        case False
        then show ?thesis using jn by (simp add: assignProp_def)
      qed
    next
      case jn: False
      then have ne: "step_id (?p ! j) \<noteq> ?k" using j True by (simp add: neq)
      have eq: "assignProp ?m1 ?k Active (step_id (?p ! j)) = ?m1 (step_id (?p ! j))"
        using ne by (simp add: assignProp_def)
      show ?thesis
        unfolding eq m1 [OF j] old [OF j] using jn by (simp add: less_Suc_eq)
    qed
    show ?thesis
      unfolding planInv_def bp new using True val by simp
  qed
qed

lemma blueprint_handleAdvance [simp]: "blueprint (handleAdvance e s st) = blueprint st"
  by (simp add: handleAdvance_def)

lemma advances_planInv:
  "distinct (map step_id (plan (blueprint st))) \<Longrightarrow> planInv n st \<Longrightarrow>
   advances clicks st = Some st' \<Longrightarrow>
   blueprint st' = blueprint st \<and> planInv (n + length clicks) st'"
proof (induction clicks arbitrary: n st)
  case Nil
  then show ?case by simp
next
  case (Cons c clicks)
  obtain e i where c: "c = (e, i)" by (cases c)
  let ?st = "handleAdvance e (plan (blueprint st) ! i) st"
  from Cons.prems c have en: "advanceEnabled st i" and rest: "advances clicks ?st = Some st'"
    by (auto split: if_splits)
  have "planInv (Suc n) ?st" using Cons.prems(1,2) en by (rule planInv_advance)
  moreover have "distinct (map step_id (plan (blueprint ?st)))" using Cons.prems(1) by simp
  ultimately have "blueprint st' = blueprint ?st \<and> planInv (Suc n + length clicks) st'"
    using rest by (intro Cons.IH)
  then show ?case by simp
qed

lemma advances_available:
  "distinct (map step_id (plan (blueprint st))) \<Longrightarrow> planInv k st \<Longrightarrow>
   PROTO \<notin> step_id ` set (plan (blueprint st)) \<Longrightarrow>
   k + n \<le> length (plan (blueprint st)) \<Longrightarrow>
   \<exists>st'. advances (map (Pair e) [k..<k + n]) st = Some st'"
proof (induction n arbitrary: k st)
  case 0
  then show ?case by simp
next
  case (Suc n)
  let ?st = "handleAdvance e (plan (blueprint st) ! k) st"
  have k: "k < length (plan (blueprint st))" using Suc.prems(4) by simp
  then have "step_id (plan (blueprint st) ! k) \<noteq> PROTO"
    using Suc.prems(3) by (metis image_eqI nth_mem)
  with k have en: "advanceEnabled st k"
    using Suc.prems(2) by (simp add: advanceEnabled_def planInv_status)
  have inv: "planInv (Suc k) ?st" using Suc.prems(1,2) en by (rule planInv_advance)
  have "\<exists>st'. advances (map (Pair e) [Suc k..<Suc k + n]) ?st = Some st'"
    using Suc.prems(1,3,4) inv by (intro Suc.IH) simp_all
  moreover have "[k..<k + Suc n] = k # [Suc k..<Suc k + n]"
    by (simp add: upt_conv_Cons)
  ultimately show ?case using en by simp
qed

lemma advances_from_fresh:
  "distinct (map step_id (plan (blueprint st))) \<Longrightarrow>
   PROTO \<notin> step_id ` set (plan (blueprint st)) \<Longrightarrow>
   planStates st = freshPlanStates (plan (blueprint st)) \<Longrightarrow>
   n \<le> length (plan (blueprint st)) \<Longrightarrow>
   \<exists>st'. advances (map (Pair e) [0..<n]) st = Some st'"
  using advances_available [of st 0 n e] by (simp add: planInv_fresh)

lemma filter_nth_less:
  "n \<le> length xs \<Longrightarrow> (\<forall>j<length xs. P (xs ! j) \<longleftrightarrow> j < n) \<Longrightarrow> filter P xs = take n xs"
proof (induction xs arbitrary: n)
  case Nil
  then show ?case by simp
next
  case (Cons x xs)
  show ?case
  proof (cases n)
    case 0
    with Cons.prems have "\<forall>y\<in>set (x # xs). \<not> P y"
      by (metis in_set_conv_nth less_nat_zero_code)
    then have "filter P (x # xs) = []" by (simp only: filter_False)
    with 0 show ?thesis by simp
  next
    case (Suc m)
    with Cons.prems have px: "P x" by auto
    have "filter P xs = take m xs"
    proof (rule Cons.IH)
      show "m \<le> length xs" using Cons.prems Suc by simp
      show "\<forall>j<length xs. P (xs ! j) = (j < m)"
        using Cons.prems(2) Suc by auto
    qed
    with px Suc show ?thesis by simp
  qed
qed

lemma filter_nth_only:
  "(\<forall>j<length xs. P (xs ! j) \<longrightarrow> j = n) \<Longrightarrow> length (filter P xs) \<le> 1"
proof (induction xs arbitrary: n)
  case Nil
  then show ?case by simp
next
  case (Cons x xs)
  show ?case
  proof (cases n)
    case 0
    from Cons.prems 0 have "\<forall>j<length xs. \<not> P (xs ! j)" by auto
    then have "\<forall>y\<in>set xs. \<not> P y" by (metis in_set_conv_nth)
    then have "filter P xs = []" by (simp only: filter_False)
    then show ?thesis by simp
  next
    case (Suc m)
    with Cons.prems have px: "\<not> P x" by auto
    have "length (filter P xs) \<le> 1"
    proof (rule Cons.IH)
      show "\<forall>j<length xs. P (xs ! j) \<longrightarrow> j = m"
        using Cons.prems Suc by auto
    qed
    with px show ?thesis by simp
  qed
qed

lemma find_nth_first:
  "n < length xs \<Longrightarrow> P (xs ! n) \<Longrightarrow> (\<forall>j<n. \<not> P (xs ! j)) \<Longrightarrow> find P xs = Some (xs ! n)"
  by (auto simp: find_Some_iff)

section \<open>Evaluation on the concrete plan\<close>

lemmas demo_defs = demoStep_def demoTool_def demoBlueprint_def demoEnv_def planEnv_def

lemmas eval_defs = statusOf_def getProp_def handleAdvance_def advancePlanStates_def
  findIndex_def element_def initialState_def freshPlanStates_def assignProp_def
  handleGenerate_def PROTO_def lit_def Let_def

lemma demo_plan:
  "plan (blueprint (initialState (demoEnv 0))) =
     [demoStep (lit ''s1''), demoStep (lit ''s2''), demoStep (lit ''s3'')]"
  by (simp add: initialState_def demoEnv_def demoBlueprint_def)

lemma demo_distinct: "distinct (map step_id (plan (blueprint (initialState (demoEnv 0)))))"
  by (simp add: demo_plan) (simp add: demoStep_def lit_def)

lemma demo_fresh:
  "planStates (initialState (demoEnv 0)) =
     freshPlanStates (plan (blueprint (initialState (demoEnv 0))))"
  by (simp add: initialState_def)

lemma demo_run:
  "advances [(demoEnv 1, 0), (demoEnv 2, 1)] (initialState (demoEnv 0)) = Some demoAdvanced"
  by (simp add: demoAdvanced_def advanceEnabled_def eval_defs demo_defs)


section \<open>Plan advancement\<close>

text \<open>
  A plan whose step ids are \<open>s1\<close>, \<open>s2\<close>, \<open>s2\<close>: its fresh plan state shows the first step
  active and the other two pending; after one advancement, on the active step, the two
  steps that share an id are both active.
\<close>

theorem duplicate_ids_two_active:
  "planStates twinPlan = freshPlanStates (plan (blueprint twinPlan)) \<and>
   map (statusOf twinPlan) (plan (blueprint twinPlan)) = [Own Active, Own Pending, Own Pending] \<and>
   advances [(demoEnv 1, 0)] twinPlan = Some twinAdvanced \<and>
   map (statusOf twinAdvanced) (plan (blueprint twinAdvanced)) = [Own Done, Own Active, Own Active] \<and>
   length (filter (\<lambda>s. statusOf twinAdvanced s = Own Active) (plan (blueprint twinAdvanced))) = 2"
proof -
  have a: "planStates twinPlan = freshPlanStates (plan (blueprint twinPlan))"
    by (simp add: twinPlan_def initialState_def)
  have b: "map (statusOf twinPlan) (plan (blueprint twinPlan)) = [Own Active, Own Pending, Own Pending]"
    by (simp add: twinPlan_def eval_defs demo_defs)
  have c: "advances [(demoEnv 1, 0)] twinPlan = Some twinAdvanced"
    by (simp add: twinAdvanced_def twinPlan_def advanceEnabled_def eval_defs demo_defs)
  have d: "map (statusOf twinAdvanced) (plan (blueprint twinAdvanced)) = [Own Done, Own Active, Own Active]"
    by (simp add: twinAdvanced_def twinPlan_def eval_defs demo_defs)
  have e: "length (filter (\<lambda>s. statusOf twinAdvanced s = Own Active) (plan (blueprint twinAdvanced))) = 2"
    by (simp add: twinAdvanced_def twinPlan_def eval_defs demo_defs)
  show ?thesis using a b c d e by (intro conjI)
qed

text \<open>
  C1, for a plan whose step ids are pairwise distinct. Take a state whose plan state is
  the one the component builds for its plan. After any run of advancements, each a click
  on a step that is active at that moment, the number of steps marked done equals the
  number of advancements, at most one step is marked active, and a step that is marked
  active is the first step in plan order that is not done (it is also the step the
  component reports as its current focus).
\<close>

theorem advancements_count_done:
  assumes d: "distinct (map step_id (plan (blueprint st0)))"
      and fresh: "planStates st0 = freshPlanStates (plan (blueprint st0))"
      and run: "advances clicks st0 = Some st"
  shows "blueprint st = blueprint st0 \<and>
         length (filter (\<lambda>s. statusOf st s = Own Done) (plan (blueprint st))) = length clicks \<and>
         length (filter (\<lambda>s. statusOf st s = Own Active) (plan (blueprint st))) \<le> 1 \<and>
         (\<forall>s\<in>set (plan (blueprint st)). statusOf st s = Own Active \<longrightarrow>
            find (\<lambda>s. statusOf st s \<noteq> Own Done) (plan (blueprint st)) = Some s \<and>
            activeStep st = Some s)"
proof -
  let ?p = "plan (blueprint st)"
  let ?n = "length clicks"
  have "planInv 0 st0" using d fresh by (rule planInv_fresh)
  with d run have bp: "blueprint st = blueprint st0" and inv: "planInv ?n st"
    using advances_planInv [of st0 0 clicks st] by auto
  have le: "?n \<le> length ?p" using inv by (simp add: planInv_def)
  have st: "\<And>j. j < length ?p \<Longrightarrow>
      statusOf st (?p ! j) =
        (if j < ?n then Own Done
         else if step_id (?p ! j) = PROTO then Inherited
         else Own (if j = ?n then Active else Pending))"
    using inv by (rule planInv_status)
  have "filter (\<lambda>s. statusOf st s = Own Done) ?p = take ?n ?p"
    using le by (rule filter_nth_less) (simp add: st)
  then have c1: "length (filter (\<lambda>s. statusOf st s = Own Done) ?p) = ?n"
    using le by simp
  have c2: "length (filter (\<lambda>s. statusOf st s = Own Active) ?p) \<le> 1"
    by (rule filter_nth_only [where n = ?n]) (simp add: st)
  have c3: "find (\<lambda>s. statusOf st s \<noteq> Own Done) ?p = Some s \<and> activeStep st = Some s"
    if s: "s \<in> set ?p" and a: "statusOf st s = Own Active" for s
  proof -
    from s obtain j where j: "j < length ?p" "s = ?p ! j" by (auto simp: in_set_conv_nth)
    with a st [of j] have jn: "j = ?n" and np: "step_id (?p ! j) \<noteq> PROTO"
      by (auto split: if_splits)
    have "find (\<lambda>s. statusOf st s \<noteq> Own Done) ?p = Some (?p ! ?n)"
      using j jn by (intro find_nth_first) (auto simp: st)
    moreover have "find (\<lambda>s. getProp (planStates st) (step_id s) = Own Active) ?p = Some (?p ! ?n)"
      using j jn np inv by (intro find_nth_first) (auto simp: planInv_def getProp_Own_iff)
    ultimately show ?thesis using j jn by (simp add: activeStep_def)
  qed
  from bp c1 c2 c3 show ?thesis by blast
qed

text \<open>
  Two advancements on the concrete plan of three steps: the first two steps are done and
  the third is the active one.
\<close>

theorem advancements_count_done_witness:
  "distinct (map step_id (plan (blueprint (initialState (demoEnv 0))))) \<and>
   planStates (initialState (demoEnv 0)) =
     freshPlanStates (plan (blueprint (initialState (demoEnv 0)))) \<and>
   advances [(demoEnv 1, 0), (demoEnv 2, 1)] (initialState (demoEnv 0)) = Some demoAdvanced \<and>
   length (filter (\<lambda>s. statusOf demoAdvanced s = Own Done) (plan (blueprint demoAdvanced))) = 2 \<and>
   length (filter (\<lambda>s. statusOf demoAdvanced s = Own Active) (plan (blueprint demoAdvanced))) \<le> 1 \<and>
   statusOf demoAdvanced (demoStep (lit ''s3'')) = Own Active \<and>
   activeStep demoAdvanced = Some (demoStep (lit ''s3''))"
proof -
  note main = advancements_count_done [OF demo_distinct demo_fresh demo_run]
  have bp: "plan (blueprint demoAdvanced) = [demoStep (lit ''s1''), demoStep (lit ''s2''), demoStep (lit ''s3'')]"
    using main demo_plan by simp
  have act: "statusOf demoAdvanced (demoStep (lit ''s3'')) = Own Active"
    by (simp add: demoAdvanced_def eval_defs demo_defs)
  have c1: "length (filter (\<lambda>s. statusOf demoAdvanced s = Own Done) (plan (blueprint demoAdvanced))) = 2"
    using main [THEN conjunct2, THEN conjunct1] by simp
  have c2: "length (filter (\<lambda>s. statusOf demoAdvanced s = Own Active) (plan (blueprint demoAdvanced))) \<le> 1"
    using main [THEN conjunct2, THEN conjunct2, THEN conjunct1] by simp
  have mem: "demoStep (lit ''s3'') \<in> set (plan (blueprint demoAdvanced))"
    by (simp add: bp)
  have c3: "activeStep demoAdvanced = Some (demoStep (lit ''s3''))"
    using main mem act by blast
  show ?thesis
    using demo_distinct demo_fresh demo_run c1 c2 act c3 by (intro conjI)
qed

section \<open>Tool history\<close>

lemma historyOf_not_Undefined: "historyOf st t \<noteq> Undefined"
  by (simp add: historyOf_def getProp_def split: option.split)

lemma historyOf_Own:
  "\<not> inherited t \<Longrightarrow>
   historyOf st t = Own (case toolHistory st t of None \<Rightarrow> [] | Some h \<Rightarrow> h)"
  by (simp add: historyOf_def getProp_def split: option.split)

lemma historyOf_Inherited_iff:
  "historyOf st t = Inherited \<longleftrightarrow> inherited t \<and> toolHistory st t = None"
  by (simp add: historyOf_def getProp_def split: option.split)

text \<open>
  One tool invocation whose history read is a list puts the new run in front of that list,
  keeps the first five elements, leaves the lists of the other tools alone and logs one
  activity entry.
\<close>

lemma handleToolRun_Own:
  "historyOf st t = Own h \<Longrightarrow>
   \<exists>st'. handleToolRun e t q st = Inr st' \<and>
         historyOf st' t = Own (take 5 (runToolSimulation e t q # h)) \<and>
         (\<forall>toolId. toolId \<noteq> t \<longrightarrow> historyOf st' toolId = historyOf st toolId) \<and>
         activity st' =
           createActivity e (lit ''Tool Fired'')
             (t @ lit '' returned '' @ run_headline (runToolSimulation e t q)) # activity st \<and>
         blueprint st' = blueprint st \<and> insights st' = insights st"
  by (simp add: handleToolRun_def Let_def historyOf_def getProp_def)

lemma handleToolRun_Inherited:
  "historyOf st t = Inherited \<Longrightarrow> handleToolRun e t q st = Inl TypeError"
  by (simp add: handleToolRun_def Let_def)

lemma handleToolRun_Inr_iff:
  "(\<exists>st'. handleToolRun e t q st = Inr st') \<longleftrightarrow> historyOf st t \<noteq> Inherited"
  by (cases "historyOf st t") (auto simp: handleToolRun_def Let_def historyOf_not_Undefined)

lemma toolRuns_history:
  "\<forall>c\<in>set invs. \<not> inherited (fst (snd c)) \<Longrightarrow> historyOf st toolId = Own h \<Longrightarrow>
   length h \<le> 5 \<Longrightarrow>
   \<exists>st'. toolRuns invs st = Inr st' \<and>
         historyOf st' toolId = Own (take 5 (rev (runsFor toolId invs) @ h))"
proof (induction invs arbitrary: st h)
  case Nil
  then show ?case by simp
next
  case (Cons c invs)
  obtain e t q where c: "c = (e, t, q)" by (cases c)
  with Cons.prems(1) have nt: "\<not> inherited t" by simp
  obtain ht where ht: "historyOf st t = Own ht" using nt by (simp add: historyOf_Own)
  obtain st1 where st1: "handleToolRun e t q st = Inr st1"
      and same: "historyOf st1 t = Own (take 5 (runToolSimulation e t q # ht))"
      and other: "\<forall>toolId. toolId \<noteq> t \<longrightarrow> historyOf st1 toolId = historyOf st toolId"
    using handleToolRun_Own [OF ht, of e q] by blast
  let ?h1 = "if toolId = t then take 5 (runToolSimulation e t q # h) else h"
  have h1: "historyOf st1 toolId = Own ?h1"
    using same other ht Cons.prems(2) by auto
  have len: "length ?h1 \<le> 5" using Cons.prems(3) by simp
  have rest: "\<forall>c\<in>set invs. \<not> inherited (fst (snd c))" using Cons.prems(1) by simp
  obtain st' where st': "toolRuns invs st1 = Inr st'"
      and hist: "historyOf st' toolId = Own (take 5 (rev (runsFor toolId invs) @ ?h1))"
    using Cons.IH [OF rest h1 len] by blast
  have "take 5 (rev (runsFor toolId invs) @ ?h1) =
          take 5 (rev (runsFor toolId (c # invs)) @ h)"
  proof (cases "toolId = t")
    case True
    let ?r = "rev (runsFor toolId invs)"
    let ?x = "runToolSimulation e t q"
    have "take 5 (?r @ take 5 (?x # h)) = take 5 (?r @ ?x # h)"
      by (simp add: take_Cons' min_def)
    with True c show ?thesis by simp
  next
    case False
    with c show ?thesis by auto
  qed
  with st' hist st1 c show ?case by simp
qed

lemma toolHistory_dispatch_bound:
  assumes b: "\<forall>t h. toolHistory st t = Some h \<longrightarrow> length h \<le> 5"
      and d: "dispatch e a st = Inr st'"
  shows "\<forall>t h. toolHistory st' t = Some h \<longrightarrow> length h \<le> 5"
proof (cases a)
  case (ClickFire i)
  show ?thesis
  proof (cases "i < length (tools (blueprint st))")
    case False
    with ClickFire d b show ?thesis by simp
  next
    case True
    let ?t = "tool_id (tools (blueprint st) ! i)"
    from True ClickFire d have r: "handleToolRun e ?t (goal (config st)) st = Inr st'" by simp
    then obtain h where h: "historyOf st ?t = Own h"
      by (cases "historyOf st ?t") (auto simp: handleToolRun_def Let_def)
    with r have "toolHistory st' =
        (toolHistory st)(?t \<mapsto> take 5 (runToolSimulation e ?t (goal (config st)) # h))"
      by (auto simp: handleToolRun_def Let_def)
    with b show ?thesis by auto
  qed
next
  case (ClickAdvance i)
  with d have "toolHistory st' = toolHistory st"
    by (auto simp: handleAdvance_def split: if_splits)
  with b show ?thesis by simp
next
  case ClickCapture
  with d have "toolHistory st' = toolHistory st"
    by (auto simp: handleInsightCreate_def Let_def split: if_splits)
  with b show ?thesis by simp
qed (use b d in \<open>auto simp: setGoal_def setContext_def setTimeframe_def
        setIntensity_def setGuardrails_def setKnowledgeQuery_def setInsightCategory_def
        setInsightDraft_def handleGenerate_def Let_def\<close>)

text \<open>
  Over any session that completes, no stored list grows beyond five entries.
\<close>

lemma toolHistory_session_bound:
  "\<forall>t h. toolHistory st t = Some h \<longrightarrow> length h \<le> 5 \<Longrightarrow> session tr st = Inr st' \<Longrightarrow>
   \<forall>t h. toolHistory st' t = Some h \<longrightarrow> length h \<le> 5"
proof (induction tr arbitrary: st)
  case Nil
  then show ?case by simp
next
  case (Cons c tr)
  obtain e a where c: "c = (e, a)" by (cases c)
  with Cons.prems(2) obtain st1 where d: "dispatch e a st = Inr st1"
      and r: "session tr st1 = Inr st'"
    by (auto split: sum.splits)
  have "\<forall>t h. toolHistory st1 t = Some h \<longrightarrow> length h \<le> 5"
    using Cons.prems(1) d by (rule toolHistory_dispatch_bound)
  then show ?case using r by (rule Cons.IH)
qed

text \<open>
  For tool ids that are not member names of \<open>Object.prototype\<close>: from the initial state,
  every run of tool invocations completes, and the list of a tool is the last five runs
  made for it, most recent first.
\<close>

lemma tool_history_capped_newest_first:
  assumes "\<forall>c\<in>set invs. \<not> inherited (fst (snd c))" and "\<not> inherited toolId"
  shows "\<exists>st'. toolRuns invs (initialState e0) = Inr st' \<and>
               historyOf st' toolId = Own (take 5 (rev (runsFor toolId invs))) \<and>
               length (take 5 (rev (runsFor toolId invs))) \<le> 5"
proof -
  have "historyOf (initialState e0) toolId = Own []"
    using assms(2) by (simp add: historyOf_Own initialState_def)
  from toolRuns_history [OF assms(1) this] show ?thesis by simp
qed

lemma demo_toString_inherited: "inherited (lit ''toString'')"
  by (simp add: inherited_def objectPrototypeNames_def lit_def PROTO_def)

text \<open>
  C2, at the tool id \<open>toString\<close>. In the initial state the history read for this id is the
  member inherited from \<open>Object.prototype\<close>, so the invocation throws a \<open>TypeError\<close> where
  the claim has the run put in front of the tool's list; the same happens on a click of
  the Fire button of the third tool of the concrete blueprint, whose id is \<open>toString\<close>.
\<close>

theorem fire_inherited_tool_id_throws:
  "historyOf (initialState (demoEnv 0)) (lit ''toString'') = Inherited \<and>
   handleToolRun (demoEnv 1) (lit ''toString'') (lit ''goal'') (initialState (demoEnv 0)) =
     Inl TypeError \<and>
   tool_id (tools (blueprint (initialState (demoEnv 0))) ! 2) = lit ''toString'' \<and>
   dispatch (demoEnv 1) (ClickFire 2) (initialState (demoEnv 0)) = Inl TypeError"
proof -
  have a: "historyOf (initialState (demoEnv 0)) (lit ''toString'') = Inherited"
    by (simp add: historyOf_Inherited_iff demo_toString_inherited) (simp add: initialState_def)
  have b: "handleToolRun (demoEnv 1) (lit ''toString'') (lit ''goal'') (initialState (demoEnv 0)) =
     Inl TypeError"
    using a by (rule handleToolRun_Inherited)
  have c: "tool_id (tools (blueprint (initialState (demoEnv 0))) ! 2) = lit ''toString''"
    by (simp add: initialState_def demo_defs)
  have l: "length (tools (blueprint (initialState (demoEnv 0)))) = 3"
    by (simp add: initialState_def demo_defs)
  have d: "dispatch (demoEnv 1) (ClickFire 2) (initialState (demoEnv 0)) = Inl TypeError"
    using a by (simp add: l c handleToolRun_Inherited)
  show ?thesis using a b c d by (intro conjI)
qed

text \<open>
  Seven invocations of the tool \<open>radar\<close>, made at times 1 to 7: the list keeps the runs of
  times 7, 6, 5, 4, 3, in this order.
\<close>

lemma demo_radar_history:
  "\<exists>st'. toolRuns demoRuns (initialState (demoEnv 0)) = Inr st' \<and>
     historyOf st' (lit ''radar'') =
       Own (map (\<lambda>t. runToolSimulation (demoEnv t) (lit ''radar'') (lit ''goal'')) [7, 6, 5, 4, 3])"
proof -
  have n: "\<not> inherited (lit ''radar'')"
    by (simp add: inherited_def objectPrototypeNames_def lit_def PROTO_def)
  have "\<forall>c\<in>set demoRuns. \<not> inherited (fst (snd c))"
    using n by (simp add: demoRuns_def)
  from tool_history_capped_newest_first [OF this n, of "demoEnv 0"]
  show ?thesis by (simp add: demoRuns_def)
qed

section \<open>Insight capture\<close>

lemma trim_Nil_iff: "trim s = [] \<longleftrightarrow> (\<forall>c\<in>set s. isWhiteSpace c)"
proof
  assume "trim s = []"
  then have all: "\<forall>c\<in>set (dropWhile isWhiteSpace s). isWhiteSpace c"
    by (simp add: trim_def)
  have "dropWhile isWhiteSpace s = []"
  proof (rule ccontr)
    assume ne: "dropWhile isWhiteSpace s \<noteq> []"
    then have "\<not> isWhiteSpace (hd (dropWhile isWhiteSpace s))" by (rule hd_dropWhile)
    moreover have "hd (dropWhile isWhiteSpace s) \<in> set (dropWhile isWhiteSpace s)"
      using ne by (rule hd_in_set)
    ultimately show False using all by blast
  qed
  then show "\<forall>c\<in>set s. isWhiteSpace c" by simp
next
  assume "\<forall>c\<in>set s. isWhiteSpace c"
  then show "trim s = []" by (auto simp: trim_def dest: set_dropWhileD)
qed

lemma trim_decompose:
  "\<exists>pre post. s = pre @ trim s @ post \<and>
     (\<forall>c\<in>set pre. isWhiteSpace c) \<and> (\<forall>c\<in>set post. isWhiteSpace c)"
proof -
  let ?d = "dropWhile isWhiteSpace s"
  let ?pre = "takeWhile isWhiteSpace s"
  let ?post = "rev (takeWhile isWhiteSpace (rev ?d))"
  have "trim s @ ?post = rev (takeWhile isWhiteSpace (rev ?d) @ dropWhile isWhiteSpace (rev ?d))"
    by (simp only: trim_def rev_append)
  also have "\<dots> = ?d" by (simp only: takeWhile_dropWhile_id rev_rev_ident)
  finally have "s = ?pre @ trim s @ ?post" by simp
  moreover have "\<forall>c\<in>set ?pre. isWhiteSpace c" by (auto dest: set_takeWhileD)
  moreover have "\<forall>c\<in>set ?post. isWhiteSpace c" by (auto dest: set_takeWhileD)
  ultimately show ?thesis by blast
qed

lemma trim_ends:
  assumes "trim s \<noteq> []"
  shows "\<not> isWhiteSpace (hd (trim s)) \<and> \<not> isWhiteSpace (last (trim s))"
proof -
  let ?d = "dropWhile isWhiteSpace s"
  let ?r = "dropWhile isWhiteSpace (rev ?d)"
  have t: "trim s = rev ?r" by (simp add: trim_def)
  with assms have r: "?r \<noteq> []" by simp
  then have "\<not> isWhiteSpace (hd ?r)" by (rule hd_dropWhile)
  then have l: "\<not> isWhiteSpace (last (trim s))" using r by (simp add: t last_rev)
  have "trim s @ rev (takeWhile isWhiteSpace (rev ?d)) =
          rev (takeWhile isWhiteSpace (rev ?d) @ ?r)"
    by (simp only: t rev_append)
  also have "\<dots> = ?d" by (simp only: takeWhile_dropWhile_id rev_rev_ident)
  finally have d: "?d = trim s @ rev (takeWhile isWhiteSpace (rev ?d))" by simp
  have dne: "?d \<noteq> []" using assms d by (metis append_is_Nil_conv)
  then have "\<not> isWhiteSpace (hd ?d)" by (rule hd_dropWhile)
  moreover have "hd ?d = hd (trim s)" using assms by (subst d) simp
  ultimately show ?thesis using l by simp
qed

lemma insights_dispatch:
  "dispatch e a st = Inr st' \<Longrightarrow> \<exists>new. insights st' = new @ insights st"
proof (cases a)
  case (ClickFire i)
  assume "dispatch e a st = Inr st'"
  with ClickFire have "insights st' = insights st"
    by (auto simp: handleToolRun_def Let_def split: if_splits jsvalue.splits)
  then show ?thesis by simp
next
  case (ClickAdvance i)
  assume "dispatch e a st = Inr st'"
  with ClickAdvance have "insights st' = insights st"
    by (auto simp: handleAdvance_def split: if_splits)
  then show ?thesis by simp
next
  case ClickCapture
  assume "dispatch e a st = Inr st'"
  with ClickCapture have "insights st' = insights st \<or> (\<exists>x. insights st' = x # insights st)"
    by (auto simp: handleInsightCreate_def Let_def split: if_splits)
  then show ?thesis by auto
qed (auto simp: setGoal_def setContext_def setTimeframe_def
        setIntensity_def setGuardrails_def setKnowledgeQuery_def setInsightCategory_def
        setInsightDraft_def handleGenerate_def Let_def)

lemma insights_session:
  "session tr st = Inr st' \<Longrightarrow> \<exists>new. insights st' = new @ insights st"
proof (induction tr arbitrary: st)
  case Nil
  then show ?case by simp
next
  case (Cons c tr)
  obtain e a where c: "c = (e, a)" by (cases c)
  with Cons.prems obtain st1 where d: "dispatch e a st = Inr st1"
      and r: "session tr st1 = Inr st'"
    by (auto split: sum.splits)
  obtain n1 where n1: "insights st1 = n1 @ insights st"
    using insights_dispatch [OF d] by blast
  obtain n2 where n2: "insights st' = n2 @ insights st1"
    using Cons.IH [OF r] by blast
  have "insights st' = (n2 @ n1) @ insights st"
    using n1 n2 by simp
  then show ?case by blast
qed

text \<open>
  C3. Capturing an insight whose draft is empty or all whitespace returns the state as it
  was: no insight, no activity entry, and the draft is kept. Capturing a draft with a
  non-whitespace character puts exactly one new entry in front of the insight list. Over
  any session the earlier insights stay, in their order, behind the ones added later, so
  the list is ordered newest first.
\<close>

theorem blank_insight_ignored:
  "((\<forall>c\<in>set (insightDraft st). isWhiteSpace c) \<longrightarrow> handleInsightCreate e st = st) \<and>
   ((\<exists>c\<in>set (insightDraft st). \<not> isWhiteSpace c) \<longrightarrow>
      (\<exists>entry. insights (handleInsightCreate e st) = entry # insights st)) \<and>
   (\<forall>st'. session tr st = Inr st' \<longrightarrow> (\<exists>new. insights st' = new @ insights st))"
proof (intro conjI impI allI)
  assume "\<forall>c\<in>set (insightDraft st). isWhiteSpace c"
  then have "trim (insightDraft st) = []" by (simp only: trim_Nil_iff)
  then show "handleInsightCreate e st = st" by (simp add: handleInsightCreate_def)
next
  assume "\<exists>c\<in>set (insightDraft st). \<not> isWhiteSpace c"
  then have "trim (insightDraft st) \<noteq> []" by (simp only: trim_Nil_iff) blast
  then show "\<exists>entry. insights (handleInsightCreate e st) = entry # insights st"
    by (simp add: handleInsightCreate_def Let_def)
next
  fix st'
  assume "session tr st = Inr st'"
  then show "\<exists>new. insights st' = new @ insights st" by (rule insights_session)
qed

lemma blankDraft_blank: "\<forall>c\<in>set (insightDraft blankDraft). isWhiteSpace c"
  by (simp add: blankDraft_def setInsightDraft_def lit_def isWhiteSpace_def)

lemma paddedDraft_trim: "trim (insightDraft paddedDraft) = lit ''ok''"
  by (simp add: paddedDraft_def setInsightDraft_def lit_def trim_def isWhiteSpace_def)

lemma paddedDraft_nonblank: "\<exists>c\<in>set (insightDraft paddedDraft). \<not> isWhiteSpace c"
  by (simp add: paddedDraft_def setInsightDraft_def lit_def isWhiteSpace_def)

lemma demo_capture_session:
  "session [(demoEnv 4, EditInsightDraft (lit '' ok '')), (demoEnv 5, ClickCapture)]
     (initialState (demoEnv 0)) = Inr (handleInsightCreate (demoEnv 5) paddedDraft)"
  by (simp add: paddedDraft_def)

text \<open>
  A draft of two spaces is ignored; the draft \<open>" ok "\<close> adds one entry to the empty list,
  also when it is typed and captured in a session.
\<close>

theorem blank_insight_ignored_witness:
  "handleInsightCreate (demoEnv 5) blankDraft = blankDraft \<and>
   insights blankDraft = [] \<and> insights paddedDraft = [] \<and>
   length (insights (handleInsightCreate (demoEnv 5) paddedDraft)) = 1 \<and>
   session [(demoEnv 4, EditInsightDraft (lit '' ok '')), (demoEnv 5, ClickCapture)]
     (initialState (demoEnv 0)) = Inr (handleInsightCreate (demoEnv 5) paddedDraft)"
proof -
  have a: "handleInsightCreate (demoEnv 5) blankDraft = blankDraft"
    using blank_insight_ignored [where st = blankDraft and e = "demoEnv 5"] blankDraft_blank
    by blast
  have e: "insights blankDraft = []" "insights paddedDraft = []"
    by (simp_all add: blankDraft_def paddedDraft_def setInsightDraft_def initialState_def)
  obtain entry where "insights (handleInsightCreate (demoEnv 5) paddedDraft) = entry # insights paddedDraft"
    using blank_insight_ignored [where st = paddedDraft and e = "demoEnv 5"] paddedDraft_nonblank
    by blast
  then have b: "length (insights (handleInsightCreate (demoEnv 5) paddedDraft)) = 1"
    by (simp add: e)
  show ?thesis using a e b demo_capture_session by (intro conjI)
qed

text \<open>
  C10. After capturing a draft with a non-whitespace character, the new entry, at the
  head of the list, stores the trimmed draft: the draft is a whitespace prefix, this text
  and a whitespace suffix, and the text neither starts nor ends with whitespace. The
  draft field is reset to the empty string.
\<close>

theorem insight_text_trimmed:
  assumes nonblank: "\<exists>c\<in>set (insightDraft st). \<not> isWhiteSpace c"
  shows "insights (handleInsightCreate e st) =
           \<lparr> insight_id = lit ''insight-'' @ numberToString (now e 0),
             insight_text = trim (insightDraft st),
             insight_category = insightCategory st,
             insight_createdAt = now e 1 \<rparr> # insights st \<and>
         insightDraft (handleInsightCreate e st) = [] \<and>
         (\<exists>pre post. insightDraft st = pre @ insight_text (hd (insights (handleInsightCreate e st))) @ post \<and>
            (\<forall>c\<in>set pre. isWhiteSpace c) \<and> (\<forall>c\<in>set post. isWhiteSpace c)) \<and>
         \<not> isWhiteSpace (hd (insight_text (hd (insights (handleInsightCreate e st))))) \<and>
         \<not> isWhiteSpace (last (insight_text (hd (insights (handleInsightCreate e st)))))"
proof -
  have ne: "trim (insightDraft st) \<noteq> []"
    using nonblank by (simp only: trim_Nil_iff) blast
  have ins: "insights (handleInsightCreate e st) =
           \<lparr> insight_id = lit ''insight-'' @ numberToString (now e 0),
             insight_text = trim (insightDraft st),
             insight_category = insightCategory st,
             insight_createdAt = now e 1 \<rparr> # insights st"
    using ne by (simp add: handleInsightCreate_def Let_def)
  have tx: "insight_text (hd (insights (handleInsightCreate e st))) = trim (insightDraft st)"
    by (simp add: ins)
  have dr: "insightDraft (handleInsightCreate e st) = []"
    using ne by (simp add: handleInsightCreate_def Let_def)
  show ?thesis
    unfolding tx using ins dr trim_decompose [of "insightDraft st"] trim_ends [OF ne]
    by (intro conjI) simp_all
qed

text \<open>
  The draft \<open>" ok "\<close> is stored as \<open>"ok"\<close>.
\<close>

theorem insight_text_trimmed_witness:
  "insightDraft paddedDraft = lit '' ok '' \<and>
   map insight_text (insights (handleInsightCreate (demoEnv 5) paddedDraft)) = [lit ''ok''] \<and>
   insightDraft (handleInsightCreate (demoEnv 5) paddedDraft) = []"
proof -
  note main = insight_text_trimmed [OF paddedDraft_nonblank, of "demoEnv 5"]
  have d: "insightDraft paddedDraft = lit '' ok ''"
    by (simp add: paddedDraft_def setInsightDraft_def)
  have e: "insights paddedDraft = []"
    by (simp add: paddedDraft_def setInsightDraft_def initialState_def)
  have a: "map insight_text (insights (handleInsightCreate (demoEnv 5) paddedDraft)) = [lit ''ok'']"
    using main [THEN conjunct1] by (simp add: e paddedDraft_trim)
  have b: "insightDraft (handleInsightCreate (demoEnv 5) paddedDraft) = []"
    using main by blast
  show ?thesis using d a b by (intro conjI)
qed

section \<open>Blueprint regeneration\<close>




text \<open>
  The steps after the first are pending also when ids repeat, as long as their own id is
  not \<open>__proto__\<close>.
\<close>

lemma generate_later_steps_pending:
  assumes j: "0 < j" "j < length (plan (blueprint (handleGenerate e st)))"
      and np: "step_id (plan (blueprint (handleGenerate e st)) ! j) \<noteq> PROTO"
  shows "statusOf (handleGenerate e st) (plan (blueprint (handleGenerate e st)) ! j) = Own Pending"
proof -
  let ?p = "plan (craftBlueprint e (config st))"
  have bp: "blueprint (handleGenerate e st) = craftBlueprint e (config st)"
    by (simp add: handleGenerate_def Let_def)
  have ps: "planStates (handleGenerate e st) = freshPlanStates ?p"
    by (simp add: handleGenerate_def Let_def)
  from j bp obtain s rest where p: "?p = s # rest" by (cases ?p) auto
  from j bp p have "step_id (?p ! j) \<in> step_id ` set rest" by (cases j) auto
  then have "freshPlanStates ?p (step_id (?p ! j)) = Some Pending"
    using p np bp by (simp add: freshPlanStates_rest)
  then show ?thesis by (simp add: statusOf_def getProp_def bp ps)
qed

text \<open>
  After the goal has been edited, regeneration leaves the edited configuration in place.
\<close>

theorem generate_keeps_edited_config:
  "config editedGoal \<noteq> INITIAL_CONFIG \<and>
   config (handleGenerate (demoEnv 1) editedGoal) = config editedGoal"
proof -
  have "goal (config editedGoal) = lit ''Ship''"
    by (simp add: editedGoal_def setGoal_def)
  moreover have "goal INITIAL_CONFIG \<noteq> lit ''Ship''"
    by (simp add: INITIAL_CONFIG_def lit_def)
  ultimately have "config editedGoal \<noteq> INITIAL_CONFIG" by auto
  moreover have "config (handleGenerate (demoEnv 1) editedGoal) = config editedGoal"
    by (simp add: handleGenerate_def Let_def)
  ultimately show ?thesis by simp
qed

text \<open>
  C8, as the handlers have it. Regeneration reads the configuration and leaves it
  unchanged; what it replaces is the blueprint, by the one crafted from the current
  configuration. Each form input replaces the configuration by a copy in which only the
  edited field differs.
\<close>

theorem generate_reads_config:
  "config (handleGenerate e st) = config st \<and>
   blueprint (handleGenerate e st) = craftBlueprint e (config st) \<and>
   config (setGoal v st) = (config st)\<lparr> goal := v \<rparr> \<and>
   config (setContext v st) = (config st)\<lparr> mission_context := v \<rparr> \<and>
   config (setTimeframe tf st) = (config st)\<lparr> timeframe := tf \<rparr> \<and>
   config (setIntensity i st) = (config st)\<lparr> intensity := i \<rparr> \<and>
   config (setGuardrails v st) = (config st)\<lparr> guardrails := v \<rparr>"
  by (simp add: handleGenerate_def Let_def setGoal_def setContext_def setTimeframe_def
        setIntensity_def setGuardrails_def)

section \<open>Advancing a step outside the plan\<close>

text \<open>
  Advancing a step whose id is not an id of the current plan: \<open>findIndex\<close> yields \<open>-1\<close>, so
  the step read at index 0 is the next step. The foreign id is marked done. The first step
  of a non-empty plan is marked active when its id is not \<open>__proto__\<close>, or when the plan
  state already has an own entry of that name.
\<close>

lemma advance_foreign_step:
  assumes foreign: "step_id step \<notin> step_id ` set (plan (blueprint st))"
  shows "findIndex (\<lambda>item. step_id item = step_id step) (plan (blueprint st)) = - 1 \<and>
         planStates (handleAdvance e step st) =
           (case plan (blueprint st) of
              [] \<Rightarrow> (planStates st)(step_id step \<mapsto> Done)
            | first # rest \<Rightarrow>
                assignProp ((planStates st)(step_id step \<mapsto> Done)) (step_id first) Active) \<and>
         planStates (handleAdvance e step st) (step_id step) = Some Done \<and>
         (plan (blueprint st) \<noteq> [] \<longrightarrow>
          (step_id (hd (plan (blueprint st))) \<noteq> PROTO \<or> planStates st PROTO \<noteq> None) \<longrightarrow>
            planStates (handleAdvance e step st) (step_id (hd (plan (blueprint st)))) = Some Active)"
proof -
  let ?p = "plan (blueprint st)"
  have idx: "findIndex (\<lambda>item. step_id item = step_id step) ?p = - 1"
  proof -
    have "\<forall>x\<in>set ?p. step_id x \<noteq> step_id step"
      using foreign by (metis image_eqI)
    then show ?thesis
      unfolding findIndex_def by (rule findIndexFrom_none)
  qed
  have upd: "planStates (handleAdvance e step st) =
           (case ?p of
              [] \<Rightarrow> (planStates st)(step_id step \<mapsto> Done)
            | first # rest \<Rightarrow>
                assignProp ((planStates st)(step_id step \<mapsto> Done)) (step_id first) Active)"
    by (simp add: handleAdvance_def advancePlanStates_def idx element_def Let_def split: list.split)
  have "planStates (handleAdvance e step st) (step_id step) = Some Done"
    using foreign by (auto simp: upd assignProp_def split: list.split)
  moreover have "planStates (handleAdvance e step st) (step_id (hd ?p)) = Some Active"
    if "?p \<noteq> []" "step_id (hd ?p) \<noteq> PROTO \<or> planStates st PROTO \<noteq> None"
    using that by (auto simp: upd assignProp_def split: list.split)
  ultimately show ?thesis using idx upd by blast
qed


section \<open>Knowledge search results\<close>

lemma startsWith_iff: "startsWith s q \<longleftrightarrow> (\<exists>post. s = q @ post)"
  by (induction s q rule: startsWith.induct) auto

lemma hasSubstring_iff: "hasSubstring s q \<longleftrightarrow> (\<exists>pre post. s = pre @ q @ post)"
proof (induction s)
  case Nil
  then show ?case by simp
next
  case (Cons c cs)
  show ?case
  proof
    assume "hasSubstring (c # cs) q"
    then consider "startsWith (c # cs) q" | "hasSubstring cs q" by auto
    then show "\<exists>pre post. c # cs = pre @ q @ post"
    proof cases
      case 1
      then obtain post where "c # cs = q @ post" by (auto simp: startsWith_iff)
      then have "c # cs = [] @ q @ post" by simp
      then show ?thesis by blast
    next
      case 2
      then obtain pre post where "cs = pre @ q @ post" using Cons.IH by blast
      then have "c # cs = (c # pre) @ q @ post" by simp
      then show ?thesis by blast
    qed
  next
    assume "\<exists>pre post. c # cs = pre @ q @ post"
    then obtain pre post where eq: "c # cs = pre @ q @ post" by blast
    show "hasSubstring (c # cs) q"
    proof (cases pre)
      case Nil
      with eq have "startsWith (c # cs) q" by (auto simp: startsWith_iff)
      then show ?thesis by simp
    next
      case (Cons p pre')
      with eq have "cs = pre' @ q @ post" by simp
      then have "hasSubstring cs q" using Cons.IH by blast
      then show ?thesis by simp
    qed
  qed
qed

lemma hasSubstring_empty: "hasSubstring s []"
  by (induction s) auto

text \<open>
  C6. Knowledge search with the empty query returns the whole catalog, which is what the
  component shows once the query field is empty; a query that matches no item returns the
  empty list.
\<close>

theorem knowledge_search_empty_and_unmatched:
  "searchKnowledge catalog [] = catalog \<and>
   knowledgeResults catalog (setKnowledgeQuery [] st) = catalog \<and>
   ((\<forall>item\<in>set catalog. \<not> matchesQuery q item) \<longrightarrow> searchKnowledge catalog q = [])"
proof -
  have m: "matchesQuery [] item" for item
    by (simp add: matchesQuery_def hasSubstring_empty)
  have a: "searchKnowledge catalog [] = catalog"
    by (simp add: searchKnowledge_def m)
  then have b: "knowledgeResults catalog (setKnowledgeQuery [] st) = catalog"
    by (simp add: knowledgeResults_def setKnowledgeQuery_def)
  have c: "searchKnowledge catalog q = []" if "\<forall>item\<in>set catalog. \<not> matchesQuery q item"
    using that by (simp add: searchKnowledge_def)
  from a b c show ?thesis by blast
qed

lemma demoCatalog_unmatched: "\<forall>item\<in>set demoCatalog. \<not> matchesQuery (lit ''zz'') item"
  by (simp add: demoCatalog_def matchesQuery_def lit_def)

lemma demoCatalog_matched:
  "searchKnowledge demoCatalog (lit ''ritual'') = [demoCatalog ! 1]"
  by (simp add: searchKnowledge_def demoCatalog_def matchesQuery_def lit_def)

text \<open>
  On a catalog of two items, the empty query returns both and \<open>"zz"\<close>, which occurs in
  neither, returns none.
\<close>

theorem knowledge_search_empty_and_unmatched_witness:
  "searchKnowledge demoCatalog [] = demoCatalog \<and> length demoCatalog = 2 \<and>
   \<not> matchesQuery (lit ''zz'') (demoCatalog ! 0) \<and>
   \<not> matchesQuery (lit ''zz'') (demoCatalog ! 1) \<and>
   searchKnowledge demoCatalog (lit ''zz'') = []"
proof -
  note main = knowledge_search_empty_and_unmatched [of demoCatalog "initialState (demoEnv 0)" "lit ''zz''"]
  have a: "searchKnowledge demoCatalog [] = demoCatalog" using main by blast
  have b: "searchKnowledge demoCatalog (lit ''zz'') = []"
    using main demoCatalog_unmatched by blast
  have l: "length demoCatalog = 2" by (simp add: demoCatalog_def)
  have n: "\<not> matchesQuery (lit ''zz'') (demoCatalog ! 0)" "\<not> matchesQuery (lit ''zz'') (demoCatalog ! 1)"
    using demoCatalog_unmatched by (simp_all add: demoCatalog_def)
  show ?thesis using a l n b by (intro conjI)
qed

section \<open>Activity log\<close>

lemma dispatch_unrecorded:
  "\<not> recorded a st \<Longrightarrow> \<exists>st'. dispatch e a st = Inr st' \<and> activity st' = activity st"
  by (cases a)
     (simp_all add: recorded_def setGoal_def setContext_def setTimeframe_def
        setIntensity_def setGuardrails_def setKnowledgeQuery_def setInsightCategory_def
        setInsightDraft_def handleInsightCreate_def)

lemma dispatch_recorded:
  assumes "recorded a st" and "\<not> throws a st"
  shows "\<exists>st' entry. dispatch e a st = Inr st' \<and> activity st' = entry # activity st"
proof (cases a)
  case (ClickFire i)
  let ?t = "tool_id (tools (blueprint st) ! i)"
  from assms ClickFire have i: "i < length (tools (blueprint st))"
      and "historyOf st ?t \<noteq> Inherited"
    by (simp_all add: recorded_def throws_def fireThrows_def)
  then obtain h where "historyOf st ?t = Own h"
    using historyOf_not_Undefined [of st ?t] by (cases "historyOf st ?t") auto
  from handleToolRun_Own [OF this, of e "goal (config st)"] i ClickFire
  show ?thesis by auto
qed (use assms in \<open>simp_all add: recorded_def handleGenerate_def handleAdvance_def
        handleInsightCreate_def Let_def\<close>)

lemma activity_session:
  "session tr st = Inr st' \<Longrightarrow> \<exists>new. activity st' = new @ activity st"
proof (induction tr arbitrary: st)
  case Nil
  then show ?case by simp
next
  case (Cons c tr)
  obtain e a where c: "c = (e, a)" by (cases c)
  with Cons.prems obtain st1 where d: "dispatch e a st = Inr st1"
      and r: "session tr st1 = Inr st'"
    by (auto split: sum.splits)
  have "\<exists>n1. activity st1 = n1 @ activity st"
  proof (cases "recorded a st")
    case False
    from dispatch_unrecorded [OF this, of e] d show ?thesis by auto
  next
    case True
    have "\<not> throws a st"
    proof
      assume "throws a st"
      then obtain i where "a = ClickFire i" "fireThrows st i"
        by (cases a) (simp_all add: throws_def)
      then have "dispatch e a st = Inl TypeError"
        by (simp add: fireThrows_def handleToolRun_Inherited)
      with d show False by simp
    qed
    from dispatch_recorded [OF True this, of e] d
    obtain entry where "activity st1 = entry # activity st" by auto
    then have "activity st1 = [entry] @ activity st" by simp
    then show ?thesis by blast
  qed
  then obtain n1 where n1: "activity st1 = n1 @ activity st" by blast
  obtain n2 where n2: "activity st' = n2 @ activity st1"
    using Cons.IH [OF r] by blast
  have "activity st' = (n2 @ n1) @ activity st"
    using n1 n2 by simp
  then show ?case by blast
qed

text \<open>
  Editing the mission goal or the knowledge query does not touch the activity log: it
  still holds its single initial entry.
\<close>

theorem edits_leave_activity_log:
  "activity (setGoal (lit ''Ship'') (initialState (demoEnv 0))) =
     activity (initialState (demoEnv 0)) \<and>
   dispatch (demoEnv 1) (EditGoal (lit ''Ship'')) (initialState (demoEnv 0)) =
     Inr (setGoal (lit ''Ship'') (initialState (demoEnv 0))) \<and>
   activity (setKnowledgeQuery (lit ''loops'') (initialState (demoEnv 0))) =
     activity (initialState (demoEnv 0)) \<and>
   dispatch (demoEnv 1) (EditKnowledgeQuery (lit ''loops'')) (initialState (demoEnv 0)) =
     Inr (setKnowledgeQuery (lit ''loops'') (initialState (demoEnv 0))) \<and>
   length (activity (initialState (demoEnv 0))) = 1"
  by (simp add: setGoal_def setKnowledgeQuery_def initialState_def)

text \<open>
  C7, as the handlers have it. Ignite, the button of an active step, Capture of a
  non-blank draft and Fire on a rendered tool each put exactly one new entry in front of
  the activity log (for Fire, when the run does not throw, which leaves out the tools
  whose id is a member name of \<open>Object.prototype\<close>). Every other action (editing the
  configuration, the insight draft or category, or the knowledge query, and Capture of a
  blank draft) completes and leaves the log as it is. Over any session the log only grows
  at the front: the earlier entries stay, in their order, behind the new ones.
\<close>

theorem activity_log_prepend_only:
  "(recorded a st \<and> \<not> throws a st \<longrightarrow>
      (\<exists>st' entry. dispatch e a st = Inr st' \<and> activity st' = entry # activity st)) \<and>
   (\<not> recorded a st \<longrightarrow> (\<exists>st'. dispatch e a st = Inr st' \<and> activity st' = activity st)) \<and>
   (\<forall>st'. session tr st = Inr st' \<longrightarrow> (\<exists>new. activity st' = new @ activity st))"
proof (intro conjI impI allI)
  assume "recorded a st \<and> \<not> throws a st"
  then show "\<exists>st' entry. dispatch e a st = Inr st' \<and> activity st' = entry # activity st"
    using dispatch_recorded by blast
next
  assume "\<not> recorded a st"
  then show "\<exists>st'. dispatch e a st = Inr st' \<and> activity st' = activity st"
    by (rule dispatch_unrecorded)
next
  fix st'
  assume "session tr st = Inr st'"
  then show "\<exists>new. activity st' = new @ activity st" by (rule activity_session)
qed

text \<open>
  Ignite on the initial state makes the log two entries long; editing the goal leaves it
  at one; Fire on the first tool of the concrete blueprint is logged and does not throw.
\<close>

theorem activity_log_prepend_only_witness:
  "recorded ClickIgnite (initialState (demoEnv 0)) \<and>
   \<not> throws ClickIgnite (initialState (demoEnv 0)) \<and>
   length (activity (handleGenerate (demoEnv 1) (initialState (demoEnv 0)))) = 2 \<and>
   recorded (ClickFire 0) (initialState (demoEnv 0)) \<and>
   \<not> throws (ClickFire 0) (initialState (demoEnv 0)) \<and>
   \<not> recorded (EditGoal (lit ''Ship'')) (initialState (demoEnv 0)) \<and>
   length (activity (setGoal (lit ''Ship'') (initialState (demoEnv 0)))) = 1"
proof -
  let ?st = "initialState (demoEnv 0)"
  have l: "length (activity ?st) = 1" by (simp add: initialState_def)
  have r: "recorded ClickIgnite ?st" by (simp add: recorded_def)
  have t: "\<not> throws ClickIgnite ?st" by (simp add: throws_def)
  have n: "\<not> recorded (EditGoal (lit ''Ship'')) ?st" by (simp add: recorded_def)
  have rf: "recorded (ClickFire 0) ?st"
    by (simp add: recorded_def initialState_def demo_defs)
  have tf: "\<not> throws (ClickFire 0) ?st"
    by (simp add: throws_def fireThrows_def historyOf_Inherited_iff)
       (simp add: initialState_def demo_defs inherited_def objectPrototypeNames_def lit_def
          PROTO_def)
  obtain st' entry where "dispatch (demoEnv 1) ClickIgnite ?st = Inr st'"
      and "activity st' = entry # activity ?st"
    using activity_log_prepend_only [where a = ClickIgnite and st = ?st and e = "demoEnv 1"] r t
    by blast
  then have a: "length (activity (handleGenerate (demoEnv 1) ?st)) = 2"
    by (auto simp: l)
  obtain st'' where "dispatch (demoEnv 1) (EditGoal (lit ''Ship'')) ?st = Inr st''"
      and "activity st'' = activity ?st"
    using activity_log_prepend_only
      [where a = "EditGoal (lit ''Ship'')" and st = ?st and e = "demoEnv 1"] n
    by blast
  then have b: "length (activity (setGoal (lit ''Ship'') ?st)) = 1"
    by (auto simp: l)
  show ?thesis using r t a rf tf n b by (intro conjI)
qed

end
